theory Spec2Isabelle
  imports Complex_Main "HOL-Library.AList"
begin

section \<open>LRU tile cache (the \<open>LRUTileCache\<close> class)\<close>

text \<open>
  The cache keeps a JavaScript \<open>Map\<close> from tile keys to entries. A \<open>Map\<close> iterates in
  insertion order, \<open>Map.set\<close> on a present key replaces the value in place and on a new key
  appends, so the map is an association list handled with \<open>AList.update\<close>,
  \<open>AList.delete\<close> and \<open>map_of\<close>. Byte sizes are JavaScript numbers that are added
  and subtracted; they are integers here. The access counter only counts up from zero.
\<close>

record 'a CacheEntry =
  entry_key :: string
  entry_value :: 'a
  entry_size :: int
  lastAccess :: nat
  entry_generation :: int

record TileCacheStats =
  stat_entries :: nat
  stat_totalSize :: int
  stat_maxSize :: int
  hits :: nat
  misses :: nat
  evictions :: nat

record 'a LRUTileCache =
  entries :: "(string \<times> 'a CacheEntry) list"
  accessCounter :: nat
  totalSize :: int
  maxSize :: int
  stats :: TileCacheStats

definition new_cache :: "int \<Rightarrow> 'a LRUTileCache" where
  "new_cache maxSizeMB =
     \<lparr> entries = [], accessCounter = 0, totalSize = 0,
       maxSize = maxSizeMB * 1024 * 1024,
       stats = \<lparr> stat_entries = 0, stat_totalSize = 0,
                 stat_maxSize = maxSizeMB * 1024 * 1024,
                 hits = 0, misses = 0, evictions = 0 \<rparr> \<rparr>"

definition updateStats :: "'a LRUTileCache \<Rightarrow> 'a LRUTileCache" where
  "updateStats c =
     c\<lparr> stats := (stats c)\<lparr> stat_entries := length (entries c),
                             stat_totalSize := totalSize c \<rparr> \<rparr>"

text \<open>\<open>get\<close>: a hit stamps the entry with the advanced counter and counts a hit.\<close>

definition cache_get :: "string \<Rightarrow> 'a LRUTileCache \<Rightarrow> 'a option \<times> 'a LRUTileCache" where
  "cache_get k c =
     (case map_of (entries c) k of
        Some entry \<Rightarrow>
          (Some (entry_value entry),
           c\<lparr> accessCounter := accessCounter c + 1,
              entries := AList.update k (entry\<lparr>lastAccess := accessCounter c + 1\<rparr>) (entries c),
              stats := (stats c)\<lparr>hits := hits (stats c) + 1\<rparr> \<rparr>)
      | None \<Rightarrow> (None, c\<lparr> stats := (stats c)\<lparr>misses := misses (stats c) + 1\<rparr> \<rparr>))"

definition cache_has :: "string \<Rightarrow> 'a LRUTileCache \<Rightarrow> bool" where
  "cache_has k c = (map_of (entries c) k \<noteq> None)"

text \<open>
  \<open>evictLRU\<close>: the scan starts with \<open>lruKey = null\<close> and \<open>minAccess = Infinity\<close>
  (\<open>None\<close> for both) and takes an entry when its stamp is strictly smaller. The eviction is
  then guarded by \<open>if (lruKey)\<close>, which is false for \<open>null\<close> and for the empty string.
\<close>

fun scanLRU :: "(string \<times> 'a CacheEntry) list \<Rightarrow> string option \<Rightarrow> nat option \<Rightarrow> string option" where
  "scanLRU [] lruKey minAccess = lruKey"
| "scanLRU ((k, e) # es) lruKey minAccess =
     (if (case minAccess of None \<Rightarrow> True | Some m \<Rightarrow> lastAccess e < m)
      then scanLRU es (Some k) (Some (lastAccess e))
      else scanLRU es lruKey minAccess)"

definition evictLRU :: "'a LRUTileCache \<Rightarrow> 'a LRUTileCache" where
  "evictLRU c =
     (case scanLRU (entries c) None None of
        None \<Rightarrow> c
      | Some lruKey \<Rightarrow>
          if lruKey = [] then c
          else (case map_of (entries c) lruKey of
                  None \<Rightarrow> c
                | Some entry \<Rightarrow>
                    c\<lparr> totalSize := totalSize c - entry_size entry,
                       entries := AList.delete lruKey (entries c),
                       stats := (stats c)\<lparr>evictions := evictions (stats c) + 1\<rparr> \<rparr>))"

text \<open>
  The \<open>while\<close> loop of \<open>set\<close>. Nothing in the loop bounds the number of iterations,
  so a run that never leaves the loop is the value \<open>None\<close>.
\<close>

partial_function (option) evict_loop :: "'a LRUTileCache \<Rightarrow> 'a LRUTileCache option" where
  "evict_loop c =
     (if totalSize c > maxSize c \<and> length (entries c) > 1
      then evict_loop (evictLRU c)
      else Some c)"

definition cache_set :: "string \<Rightarrow> 'a \<Rightarrow> int \<Rightarrow> int \<Rightarrow> 'a LRUTileCache \<Rightarrow> 'a LRUTileCache option" where
  "cache_set k v sz gen c =
     (let c1 = (case map_of (entries c) k of
                  Some old \<Rightarrow> c\<lparr>totalSize := totalSize c - entry_size old\<rparr>
                | None \<Rightarrow> c);
          c2 = c1\<lparr>accessCounter := accessCounter c1 + 1\<rparr>;
          entry = \<lparr> entry_key = k, entry_value = v, entry_size = sz,
                    lastAccess = accessCounter c2, entry_generation = gen \<rparr>;
          c3 = c2\<lparr> entries := AList.update k entry (entries c2),
                   totalSize := totalSize c2 + sz \<rparr>
      in map_option updateStats (evict_loop c3))"

definition cache_delete :: "string \<Rightarrow> 'a LRUTileCache \<Rightarrow> bool \<times> 'a LRUTileCache" where
  "cache_delete k c =
     (case map_of (entries c) k of
        Some entry \<Rightarrow>
          (True, updateStats (c\<lparr> totalSize := totalSize c - entry_size entry,
                                entries := AList.delete k (entries c) \<rparr>))
      | None \<Rightarrow> (False, c))"

definition cache_clear :: "'a LRUTileCache \<Rightarrow> 'a LRUTileCache" where
  "cache_clear c = updateStats (c\<lparr> entries := [], totalSize := 0, accessCounter := 0 \<rparr>)"

definition invalidateOldGenerations :: "int \<Rightarrow> 'a LRUTileCache \<Rightarrow> 'a LRUTileCache" where
  "invalidateOldGenerations currentGeneration c =
     (let keysToDelete =
            map fst (filter (\<lambda>(k, e). entry_generation e < currentGeneration) (entries c))
      in fold (\<lambda>k c'. snd (cache_delete k c')) keysToDelete c)"

definition cache_keys :: "'a LRUTileCache \<Rightarrow> string list" where
  "cache_keys c = map fst (entries c)"

declare evict_loop.simps [code]

subsection \<open>Sequences of public cache operations\<close>

text \<open>
  The public operations of the cache as data, and a run of a sequence of them. A run is
  \<open>None\<close> when some \<open>set\<close> never returns. \<open>has\<close> stands for all the accessors that
  leave the cache as it is (\<open>has\<close>, \<open>getStats\<close>, \<open>getSizeMB\<close>, \<open>size\<close>, \<open>keys\<close>).
\<close>

datatype 'a cache_op =
    OpSet string 'a int int
  | OpGet string
  | OpHas string
  | OpDelete string
  | OpClear
  | OpInvalidate int

fun apply_cache_op :: "'a cache_op \<Rightarrow> 'a LRUTileCache \<Rightarrow> 'a LRUTileCache option" where
  "apply_cache_op (OpSet k v sz gen) c = cache_set k v sz gen c"
| "apply_cache_op (OpGet k) c = Some (snd (cache_get k c))"
| "apply_cache_op (OpHas k) c = Some c"
| "apply_cache_op (OpDelete k) c = Some (snd (cache_delete k c))"
| "apply_cache_op OpClear c = Some (cache_clear c)"
| "apply_cache_op (OpInvalidate g) c = Some (invalidateOldGenerations g c)"

fun run_cache_ops :: "'a cache_op list \<Rightarrow> 'a LRUTileCache \<Rightarrow> 'a LRUTileCache option" where
  "run_cache_ops [] c = Some c"
| "run_cache_ops (opn # ops) c =
     (case apply_cache_op opn c of None \<Rightarrow> None | Some c' \<Rightarrow> run_cache_ops ops c')"


subsection \<open>Size accounting and the byte budget\<close>

text \<open>
  \<open>accounted\<close>: the keys of the map are distinct (it is a \<open>Map\<close>), \<open>totalSize\<close> is the
  sum of the entry sizes, byte sizes and the capacity are not negative.
  \<open>within_budget\<close>: the byte budget of the data model.
\<close>

definition sizes_sum :: "(string \<times> 'a CacheEntry) list \<Rightarrow> int" where
  "sizes_sum al = sum_list (map (\<lambda>p. entry_size (snd p)) al)"



text \<open>
  Scenario S1 of the specification as a sequence of operations, with the entry size as a
  parameter (400 KiB is 409600 bytes; the scenario's expected total counts 400000).
\<close>

definition s1_ops :: "int \<Rightarrow> unit cache_op list" where
  "s1_ops sz =
     [OpSet ''0/0/0'' () sz 0, OpSet ''0/0/1'' () sz 0, OpSet ''0/0/2'' () sz 0,
      OpGet ''0/0/0'', OpSet ''0/0/3'' () sz 0]"

definition s1_run :: "nat \<Rightarrow> int \<Rightarrow> unit LRUTileCache option" where
  "s1_run n sz = run_cache_ops (take n (s1_ops sz)) (new_cache 1)"




text \<open>
  A cache of capacity zero that holds one entry under the empty-string key, and the state
  in which the loop of \<open>set\<close> finds it after a second key was inserted.
\<close>

definition stuck_cache :: "unit LRUTileCache" where
  "stuck_cache =
     \<lparr> entries = [('''', \<lparr> entry_key = '''', entry_value = (), entry_size = 1,
                           lastAccess = 1, entry_generation = 0 \<rparr>)],
       accessCounter = 1, totalSize = 1, maxSize = 0,
       stats = \<lparr> stat_entries = 1, stat_totalSize = 1, stat_maxSize = 0,
                 hits = 0, misses = 0, evictions = 0 \<rparr> \<rparr>"

definition stuck_loop_state :: "unit LRUTileCache" where
  "stuck_loop_state =
     \<lparr> entries = [('''', \<lparr> entry_key = '''', entry_value = (), entry_size = 1,
                           lastAccess = 1, entry_generation = 0 \<rparr>),
                  (''a'', \<lparr> entry_key = ''a'', entry_value = (), entry_size = 1,
                           lastAccess = 2, entry_generation = 0 \<rparr>)],
       accessCounter = 2, totalSize = 2, maxSize = 0,
       stats = \<lparr> stat_entries = 1, stat_totalSize = 1, stat_maxSize = 0,
                 hits = 0, misses = 0, evictions = 0 \<rparr> \<rparr>"


text \<open>A cache within its budget that the next insert of 500000 bytes pushes over it.\<close>

definition term_cache :: "unit LRUTileCache" where
  "term_cache =
     \<lparr> entries = [(''a'', \<lparr> entry_key = ''a'', entry_value = (), entry_size = 500000,
                           lastAccess = 1, entry_generation = 0 \<rparr>),
                  (''b'', \<lparr> entry_key = ''b'', entry_value = (), entry_size = 500000,
                           lastAccess = 2, entry_generation = 0 \<rparr>)],
       accessCounter = 2, totalSize = 1000000, maxSize = 1048576,
       stats = \<lparr> stat_entries = 2, stat_totalSize = 1000000, stat_maxSize = 1048576,
                 hits = 0, misses = 0, evictions = 0 \<rparr> \<rparr>"

section \<open>Web Mercator projection\<close>

text \<open>
  The two closed-form conversions, over the real numbers: \<open>Math.atan\<close>, \<open>Math.exp\<close>,
  \<open>Math.log\<close> and \<open>Math.tan\<close> are \<open>arctan\<close>, \<open>exp\<close>, \<open>ln\<close> and \<open>tan\<close>. The rounding
  of IEEE doubles is not part of this model.
\<close>

definition EARTH_RADIUS :: real where
  "EARTH_RADIUS = 6378137"

definition ORIGIN_SHIFT :: real where
  "ORIGIN_SHIFT = pi * EARTH_RADIUS"

definition webMercatorToWGS84 :: "real \<Rightarrow> real \<Rightarrow> real \<times> real" where
  "webMercatorToWGS84 x y =
     (let lng = (x / ORIGIN_SHIFT) * 180;
          lat = (arctan (exp ((y / ORIGIN_SHIFT) * pi)) * 360) / pi - 90
      in (lng, lat))"

definition wgs84ToWebMercator :: "real \<Rightarrow> real \<Rightarrow> real \<times> real" where
  "wgs84ToWebMercator lng lat =
     (let x = (lng * ORIGIN_SHIFT) / 180;
          y = ((ln (tan (((90 + lat) * pi) / 360)) / (pi / 180)) * ORIGIN_SHIFT) / 180
      in (x, y))"

section \<open>Tile prioritizer: keys and coordinates\<close>

text \<open>
  A \<open>TileCoord\<close> has three number fields. Tile arithmetic keeps them integers; the
  numbers \<open>parseInt\<close> returns are an integer or \<open>NaN\<close>, so the record is parametric in
  the type of its fields.
\<close>

record 'n TileCoordOf =
  tile_x :: 'n
  tile_y :: 'n
  tile_z :: 'n

type_synonym TileCoord = "int TileCoordOf"


text \<open>
  Template literals render an integer in decimal, with a minus sign when negative.
\<close>

definition digit_char :: "nat \<Rightarrow> char" where
  "digit_char d = char_of (48 + d)"

fun show_nat :: "nat \<Rightarrow> string" where
  "show_nat n = (if n < 10 then [digit_char n] else show_nat (n div 10) @ [digit_char (n mod 10)])"

declare show_nat.simps [simp del]

definition js_show :: "int \<Rightarrow> string" where
  "js_show i = (if i < 0 then CHR ''-'' # show_nat (nat (- i)) else show_nat (nat i))"

definition tileKey :: "int \<Rightarrow> int \<Rightarrow> int \<Rightarrow> string" where
  "tileKey x y z = js_show z @ ''/'' @ js_show x @ ''/'' @ js_show y"

text \<open>
  \<open>key.split("/")\<close>: the pieces between the separators; the empty string gives one
  empty piece.
\<close>

fun split :: "char \<Rightarrow> string \<Rightarrow> string list" where
  "split sep [] = [[]]"
| "split sep (c # cs) =
     (if c = sep then [] # split sep cs
      else (case split sep cs of [] \<Rightarrow> [[c]] | p # ps \<Rightarrow> (c # p) # ps))"

text \<open>
  \<open>parseInt(s, 10)\<close>: skip leading white space (the ASCII white space and line
  terminators here), read an optional sign, then the longest run of decimal digits;
  without a digit the result is \<open>NaN\<close>. Integers are exact here.
\<close>

definition is_digit :: "char \<Rightarrow> bool" where
  "is_digit c \<longleftrightarrow> 48 \<le> (of_char c :: nat) \<and> (of_char c :: nat) \<le> 57"

definition digit_val :: "char \<Rightarrow> int" where
  "digit_val c = int (of_char c) - 48"

definition is_space :: "char \<Rightarrow> bool" where
  "is_space c \<longleftrightarrow> (of_char c :: nat) \<in> {9, 10, 11, 12, 13, 32}"




text \<open>
  The canonical wire form of the specification: three decimal numerals without sign,
  separated by \<open>/\<close>.
\<close>

definition decimal :: "string \<Rightarrow> bool" where
  "decimal p \<longleftrightarrow> p \<noteq> [] \<and> list_all is_digit p"

definition canonical_key :: "string \<Rightarrow> bool" where
  "canonical_key s =
     (case split CHR ''/'' s of [z, x, y] \<Rightarrow> decimal z \<and> decimal x \<and> decimal y | _ \<Rightarrow> False)"

text \<open>Parent and child tiles, and the region of a child inside a parent.\<close>

record Region =
  region_x :: real
  region_y :: real
  width :: real
  height :: real

definition getParentTile :: "TileCoord \<Rightarrow> TileCoord option" where
  "getParentTile tile =
     (if tile_z tile = 0 then None
      else Some \<lparr> tile_x = tile_x tile div 2, tile_y = tile_y tile div 2,
                  tile_z = tile_z tile - 1 \<rparr>)"

function getParentTiles :: "TileCoord \<Rightarrow> int \<Rightarrow> TileCoord list" where
  "getParentTiles current minZoom =
     (if tile_z current > minZoom
      then (case getParentTile current of
              None \<Rightarrow> []
            | Some parent \<Rightarrow> parent # getParentTiles parent minZoom)
      else [])"
  by pat_completeness auto
termination
  by (relation "measure (\<lambda>(current, minZoom). nat (tile_z current - minZoom))")
     (auto simp: getParentTile_def split: if_splits)

declare getParentTiles.simps [simp del]

definition getChildRegionInParent :: "TileCoord \<Rightarrow> TileCoord \<Rightarrow> Region option" where
  "getChildRegionInParent child parent =
     (let zoomDiff = tile_z child - tile_z parent
      in if zoomDiff < 0 then None
         else
           (let scale = (2::real) powi zoomDiff;
                tileSize = 1 / scale;
                parentX = real_of_int (tile_x child) / scale;
                parentY = real_of_int (tile_y child) / scale;
                offsetX = parentX - real_of_int (tile_x parent);
                offsetY = parentY - real_of_int (tile_y parent)
            in Some \<lparr> region_x = offsetX, region_y = offsetY,
                        width = tileSize, height = tileSize \<rparr>))"

text \<open>
  \<open>contains_tile parent child\<close>: \<open>parent\<close> is the tile of its zoom level whose cell holds
  \<open>child\<close>, which is what repeated \<open>getParentTile\<close> computes (lemma
  \<open>getParentTiles_contains\<close>).
\<close>

definition contains_tile :: "TileCoord \<Rightarrow> TileCoord \<Rightarrow> bool" where
  "contains_tile parent child \<longleftrightarrow>
     tile_z parent \<le> tile_z child \<and>
     tile_x parent = tile_x child div 2 ^ nat (tile_z child - tile_z parent) \<and>
     tile_y parent = tile_y child div 2 ^ nat (tile_z child - tile_z parent)"

definition region_child :: TileCoord where
  "region_child = \<lparr> tile_x = 5, tile_y = 2, tile_z = 3 \<rparr>"

definition region_parent :: TileCoord where
  "region_parent = \<lparr> tile_x = 2, tile_y = 1, tile_z = 2 \<rparr>"

section \<open>Tile prioritizer: visible tiles and center-out order\<close>

text \<open>
  The slippy-map formulas over the real numbers (\<open>Math.asinh\<close> is \<open>arsinh\<close>,
  \<open>2 ** zoom\<close> is \<open>2 powi zoom\<close>, \<open>Math.floor\<close> is the floor). The two nested loops of
  \<open>getVisibleTiles\<close> run over inclusive integer ranges, \<open>x\<close> outermost. The sort of
  \<open>prioritizeTiles\<close> is stable.
\<close>

record ViewportBounds =
  west :: real
  east :: real
  north :: real
  south :: real

record PrioritizedTile =
  p_coord :: TileCoord
  p_key :: string
  distance :: int

definition lngLatToTile :: "real \<Rightarrow> real \<Rightarrow> int \<Rightarrow> TileCoord" where
  "lngLatToTile lng lat zoom =
     (let n = (2::real) powi zoom;
          x = \<lfloor>((lng + 180) / 360) * n\<rfloor>;
          latRad = (lat * pi) / 180;
          y = \<lfloor>((1 - arsinh (tan latRad) / pi) / 2) * n\<rfloor>
      in \<lparr> tile_x = x, tile_y = y, tile_z = zoom \<rparr>)"

definition getViewportCenterTile :: "ViewportBounds \<Rightarrow> int \<Rightarrow> TileCoord" where
  "getViewportCenterTile bounds zoom =
     (let centerLng = (west bounds + east bounds) / 2;
          centerLat = (north bounds + south bounds) / 2
      in lngLatToTile centerLng centerLat zoom)"

definition getVisibleTiles :: "ViewportBounds \<Rightarrow> int \<Rightarrow> TileCoord list" where
  "getVisibleTiles bounds zoom =
     (let nw = lngLatToTile (west bounds) (north bounds) zoom;
          se = lngLatToTile (east bounds) (south bounds) zoom
      in concat (map (\<lambda>x. map (\<lambda>y. \<lparr> tile_x = x, tile_y = y, tile_z = zoom \<rparr>)
                                [min (tile_y nw) (tile_y se) .. max (tile_y nw) (tile_y se)])
                     [min (tile_x nw) (tile_x se) .. max (tile_x nw) (tile_x se)]))"

definition prioritizeTiles :: "TileCoord list \<Rightarrow> TileCoord \<Rightarrow> PrioritizedTile list" where
  "prioritizeTiles tiles centerTile =
     sort_key distance
       (map (\<lambda>tile.
               let dx = tile_x tile - tile_x centerTile;
                   dy = tile_y tile - tile_y centerTile
               in \<lparr> p_coord = tile,
                     p_key = tileKey (tile_x tile) (tile_y tile) (tile_z tile),
                     distance = dx * dx + dy * dy \<rparr>)
            tiles)"

section \<open>Tile loader (the \<open>TileLoader\<close> class)\<close>

text \<open>
  The loader owns a map from keys to \<open>TileData\<close> objects and mutates those objects in
  place; a load that is in flight keeps a reference to its object even after the map was
  cleared. So the objects live in a store (\<open>heap\<close>, a reference is an index into it) and
  the map \<open>tiles\<close> holds references. The set \<open>loadingTiles\<close> is a list without duplicates
  in insertion order. Host timers are the list \<open>timers\<close> of pending callbacks, each with
  the bounds and zoom its closure captured; handles count from 1. The delay of a timer is
  not modelled: a pending timer may fire at any time.
\<close>

datatype TileState = PENDING | LOADING | LOADED | ERROR

record ('a, 'e) TileData =
  coord :: TileCoord
  tile_key :: string
  state :: TileState
  data :: "'a option"
  error :: "'e option"
  loadTime :: "int option"
  generation :: int

record TileLoaderConfig =
  maxConcurrentLoads :: int
  maxStartsPerFrame :: int
  panDebounceMs :: int
  zoomDebounceMs :: int
  cacheSizeMB :: int
  fadeDurationMs :: int

definition DEFAULT_CONFIG :: TileLoaderConfig where
  "DEFAULT_CONFIG =
     \<lparr> maxConcurrentLoads = 4, maxStartsPerFrame = 2, panDebounceMs = 50,
       zoomDebounceMs = 150, cacheSizeMB = 50, fadeDurationMs = 250 \<rparr>"

datatype timer_callback =
    PanCallback ViewportBounds int
  | ZoomCallback ViewportBounds int

record ('a, 'e) TileLoader =
  config :: TileLoaderConfig
  cache :: "'a LRUTileCache"
  heap :: "('a, 'e) TileData list"
  tiles :: "(string \<times> nat) list"
  loadQueue :: "string list"
  loadingTiles :: "string list"
  loadGeneration :: int
  lastZoom :: int
  panDebounceTimer :: "nat option"
  zoomDebounceTimer :: "nat option"
  isZooming :: bool
  timers :: "(nat \<times> timer_callback) list"
  nextTimer :: nat

definition new_loader :: "TileLoaderConfig \<Rightarrow> ('a, 'e) TileLoader" where
  "new_loader cfg =
     \<lparr> config = cfg, cache = new_cache (cacheSizeMB cfg), heap = [], tiles = [],
       loadQueue = [], loadingTiles = [], loadGeneration = 0, lastZoom = - 1,
       panDebounceTimer = None, zoomDebounceTimer = None, isZooming = False,
       timers = [], nextTimer = 1 \<rparr>"

text \<open>
  \<open>deref\<close> reads an object of the store, \<open>tiles_get\<close> is \<open>this.tiles.get(key)\<close>,
  \<open>set_add\<close> is \<open>Set.add\<close>.
\<close>

definition deref :: "('a, 'e) TileLoader \<Rightarrow> nat \<Rightarrow> ('a, 'e) TileData option" where
  "deref st r = (if r < length (heap st) then Some (heap st ! r) else None)"

definition tiles_get :: "('a, 'e) TileLoader \<Rightarrow> string \<Rightarrow> ('a, 'e) TileData option" where
  "tiles_get st k = (case map_of (tiles st) k of None \<Rightarrow> None | Some r \<Rightarrow> deref st r)"

definition set_add :: "string \<Rightarrow> string list \<Rightarrow> string list" where
  "set_add k ks = (if k \<in> set ks then ks else ks @ [k])"

definition setTimeout :: "timer_callback \<Rightarrow> ('a, 'e) TileLoader \<Rightarrow> nat \<times> ('a, 'e) TileLoader" where
  "setTimeout cb st =
     (nextTimer st, st\<lparr> timers := timers st @ [(nextTimer st, cb)],
                         nextTimer := nextTimer st + 1 \<rparr>)"

definition clearTimeout :: "nat \<Rightarrow> ('a, 'e) TileLoader \<Rightarrow> ('a, 'e) TileLoader" where
  "clearTimeout h st = st\<lparr> timers := AList.delete h (timers st) \<rparr>"

text \<open>
  The loop of \<open>handleZoomChange\<close> over the in-flight keys: a record of an older
  generation goes back to \<open>PENDING\<close> and leaves the in-flight set.
\<close>

fun cancel_loading :: "string list \<Rightarrow> ('a, 'e) TileLoader \<Rightarrow> ('a, 'e) TileLoader" where
  "cancel_loading [] st = st"
| "cancel_loading (k # ks) st =
     cancel_loading ks
       (case map_of (tiles st) k of
          None \<Rightarrow> st
        | Some r \<Rightarrow>
            (case deref st r of
               None \<Rightarrow> st
             | Some tile \<Rightarrow>
                 if generation tile < loadGeneration st
                 then st\<lparr> heap := (heap st)[r := tile\<lparr>state := PENDING\<rparr>],
                          loadingTiles := removeAll k (loadingTiles st) \<rparr>
                 else st))"

definition handleZoomChange :: "int \<Rightarrow> ('a, 'e) TileLoader \<Rightarrow> ('a, 'e) TileLoader" where
  "handleZoomChange newZoom st =
     (let st1 = st\<lparr> loadGeneration := loadGeneration st + 1, lastZoom := newZoom,
                      loadQueue := [] \<rparr>;
          st2 = st1\<lparr> cache := invalidateOldGenerations (loadGeneration st1) (cache st1) \<rparr>
      in cancel_loading (loadingTiles st2) st2)"

definition updateViewport :: "ViewportBounds \<Rightarrow> int \<Rightarrow> ('a, 'e) TileLoader \<Rightarrow> ('a, 'e) TileLoader" where
  "updateViewport bounds zoom st =
     (let zoomChanged = (zoom \<noteq> lastZoom st);
          st1 = (if zoomChanged then handleZoomChange zoom st else st);
          st2 = (case panDebounceTimer st1 of Some h \<Rightarrow> clearTimeout h st1 | None \<Rightarrow> st1);
          st3 = (case zoomDebounceTimer st2 of
                   Some h \<Rightarrow> if \<not> zoomChanged then clearTimeout h st2 else st2
                 | None \<Rightarrow> st2)
      in if zoomChanged
         then (let (h, st4) = setTimeout (ZoomCallback bounds zoom) (st3\<lparr>isZooming := True\<rparr>)
               in st4\<lparr>zoomDebounceTimer := Some h\<rparr>)
         else (let (h, st4) = setTimeout (PanCallback bounds zoom) st3
               in st4\<lparr>panDebounceTimer := Some h\<rparr>))"

text \<open>
  The body of the loop of \<open>processViewChange\<close> for one prioritized tile. A record is
  created only under \<open>if (!this.tiles.has(key))\<close>.
\<close>

definition enqueue_tile :: "PrioritizedTile \<Rightarrow> ('a, 'e) TileLoader \<Rightarrow> ('a, 'e) TileLoader" where
  "enqueue_tile p st =
     (if cache_has (p_key p) (cache st) then st
      else if p_key p \<in> set (loadQueue st) \<or> p_key p \<in> set (loadingTiles st) then st
      else
        (let st1 = st\<lparr> loadQueue := loadQueue st @ [p_key p] \<rparr>
         in if map_of (tiles st1) (p_key p) = None
            then st1\<lparr> heap := heap st1 @
                                [\<lparr> coord = p_coord p, tile_key = p_key p, state = PENDING,
                                    data = None, error = None, loadTime = None,
                                    generation = loadGeneration st1 \<rparr>],
                       tiles := AList.update (p_key p) (length (heap st1)) (tiles st1) \<rparr>
            else st1))"

definition processViewChange :: "ViewportBounds \<Rightarrow> int \<Rightarrow> ('a, 'e) TileLoader \<Rightarrow> ('a, 'e) TileLoader" where
  "processViewChange bounds zoom st =
     (let visibleTiles = getVisibleTiles bounds zoom;
          centerTile = getViewportCenterTile bounds zoom;
          prioritized = prioritizeTiles visibleTiles centerTile
      in fold enqueue_tile prioritized st)"

definition fireTimer :: "nat \<Rightarrow> ('a, 'e) TileLoader \<Rightarrow> ('a, 'e) TileLoader" where
  "fireTimer h st =
     (case map_of (timers st) h of
        None \<Rightarrow> st
      | Some (ZoomCallback bounds zoom) \<Rightarrow>
          processViewChange bounds zoom (st\<lparr> timers := AList.delete h (timers st), isZooming := False \<rparr>)
      | Some (PanCallback bounds zoom) \<Rightarrow>
          processViewChange bounds zoom (st\<lparr> timers := AList.delete h (timers st) \<rparr>))"

text \<open>
  \<open>startTileLoad\<close> up to its \<open>await\<close>: the record becomes \<open>LOADING\<close> and its key
  in flight. What runs after the \<open>await\<close> is \<open>completeLoad\<close> below.
\<close>

definition startTileLoad :: "nat \<Rightarrow> ('a, 'e) TileLoader \<Rightarrow> ('a, 'e) TileLoader" where
  "startTileLoad r st =
     (case deref st r of
        None \<Rightarrow> st
      | Some tile \<Rightarrow>
          st\<lparr> heap := (heap st)[r := tile\<lparr>state := LOADING\<rparr>],
              loadingTiles := set_add (tile_key tile) (loadingTiles st) \<rparr>)"

text \<open>
  The loop of \<open>processQueue\<close>. Each pass shifts one key off the queue, so it ends.
\<close>

function processQueue_loop :: "int \<Rightarrow> ('a, 'e) TileLoader \<Rightarrow> ('a, 'e) TileLoader" where
  "processQueue_loop startsThisFrame st =
     (if int (length (loadingTiles st)) < maxConcurrentLoads (config st) \<and>
         loadQueue st \<noteq> [] \<and>
         startsThisFrame < maxStartsPerFrame (config st)
      then
        (let k = hd (loadQueue st);
             st1 = st\<lparr> loadQueue := tl (loadQueue st) \<rparr>
         in case map_of (tiles st1) k of
              None \<Rightarrow> processQueue_loop startsThisFrame st1
            | Some r \<Rightarrow>
                (case deref st1 r of
                   None \<Rightarrow> processQueue_loop startsThisFrame st1
                 | Some tile \<Rightarrow>
                     if generation tile < loadGeneration st1
                     then processQueue_loop startsThisFrame st1
                     else processQueue_loop (startsThisFrame + 1) (startTileLoad r st1)))
      else st)"
  by pat_completeness auto
termination
  by (relation "measure (\<lambda>(n, st). length (loadQueue st))")
     (auto simp: startTileLoad_def split: option.splits)

declare processQueue_loop.simps [simp del]

definition processQueue :: "('a, 'e) TileLoader \<Rightarrow> ('a, 'e) TileLoader" where
  "processQueue st = (if isZooming st then st else processQueue_loop 0 st)"

definition estimateTileSize :: "'a \<Rightarrow> int" where
  "estimateTileSize d = 1024 * 1024"

text \<open>
  The part of \<open>startTileLoad\<close> after the \<open>await\<close>, for the object \<open>r\<close> and the
  generation \<open>gen\<close> captured at the start; \<open>outcome\<close> is the rejection (\<open>Inl\<close>) or the
  payload (\<open>Inr\<close>) of the host callback and \<open>now\<close> is \<open>Date.now()\<close>. The \<open>finally\<close>
  block removes the key once more. The result is \<open>None\<close> when \<open>cache.set\<close> does not
  return.
\<close>

definition completeLoad ::
  "nat \<Rightarrow> int \<Rightarrow> 'e + 'a \<Rightarrow> int \<Rightarrow> ('a, 'e) TileLoader \<Rightarrow> ('a, 'e) TileLoader option" where
  "completeLoad r gen outcome now st =
     (case deref st r of
        None \<Rightarrow> Some st
      | Some tile \<Rightarrow>
          (case outcome of
             Inr d \<Rightarrow>
               if gen \<noteq> loadGeneration st
               then Some (st\<lparr> loadingTiles :=
                               removeAll (tile_key tile) (removeAll (tile_key tile) (loadingTiles st)) \<rparr>)
               else
                 (let st1 = st\<lparr> heap := (heap st)[r := tile\<lparr> data := Some d, state := LOADED,
                                                                loadTime := Some now \<rparr>] \<rparr>
                  in case cache_set (tile_key tile) d (estimateTileSize d) gen (cache st1) of
                       None \<Rightarrow> None
                     | Some c \<Rightarrow>
                         Some (st1\<lparr> cache := c,
                                    loadingTiles := removeAll (tile_key tile) (loadingTiles st1) \<rparr>))
           | Inl err \<Rightarrow>
               if gen \<noteq> loadGeneration st
               then Some (st\<lparr> loadingTiles :=
                               removeAll (tile_key tile) (removeAll (tile_key tile) (loadingTiles st)) \<rparr>)
               else Some (st\<lparr> heap := (heap st)[r := tile\<lparr> state := ERROR, error := Some err \<rparr>],
                              loadingTiles := removeAll (tile_key tile) (loadingTiles st) \<rparr>)))"

text \<open>
  \<open>getTile\<close>. The test \<open>if (cached)\<close> is JavaScript truthiness of the payload, which
  depends on the payload type: \<open>truthy\<close> is that test. The record returned is the
  object stored under the key.
\<close>

definition getTile ::
  "('a \<Rightarrow> bool) \<Rightarrow> string \<Rightarrow> ('a, 'e) TileLoader \<Rightarrow> ('a, 'e) TileData option \<times> ('a, 'e) TileLoader" where
  "getTile truthy k st =
     (let (cached, c) = cache_get k (cache st);
          st1 = st\<lparr> cache := c \<rparr>
      in case (case cached of Some v \<Rightarrow> if truthy v then Some v else None | None \<Rightarrow> None) of
           Some v \<Rightarrow>
             (case map_of (tiles st1) k of
                Some r \<Rightarrow>
                  (case deref st1 r of
                     Some tile \<Rightarrow>
                       (Some (tile\<lparr> data := Some v, state := LOADED \<rparr>),
                        st1\<lparr> heap := (heap st1)[r := tile\<lparr> data := Some v, state := LOADED \<rparr>] \<rparr>)
                   | None \<Rightarrow> (tiles_get st1 k, st1))
              | None \<Rightarrow> (tiles_get st1 k, st1))
         | None \<Rightarrow> (tiles_get st1 k, st1))"

text \<open>
  \<open>findLoadedParent\<close> walks up with \<open>getParentTile\<close> until it returns \<open>null\<close>, which it
  does at zoom 0 only; the walk need not end for other inputs.
\<close>

partial_function (option) findLoadedParent_loop ::
  "('a \<Rightarrow> bool) \<Rightarrow> TileCoord option \<Rightarrow> ('a, 'e) TileLoader \<Rightarrow>
     (('a, 'e) TileData option \<times> ('a, 'e) TileLoader) option" where
  "findLoadedParent_loop truthy parent st =
     (case parent of
        None \<Rightarrow> Some (None, st)
      | Some p \<Rightarrow>
          (case getTile truthy (tileKey (tile_x p) (tile_y p) (tile_z p)) st of
             (tile, st1) \<Rightarrow>
               if (case tile of
                     Some t \<Rightarrow> state t = LOADED \<and>
                               (case data t of Some d \<Rightarrow> truthy d | None \<Rightarrow> False)
                   | None \<Rightarrow> False)
               then Some (tile, st1)
               else findLoadedParent_loop truthy (getParentTile p) st1))"

definition findLoadedParent ::
  "('a \<Rightarrow> bool) \<Rightarrow> TileCoord \<Rightarrow> ('a, 'e) TileLoader \<Rightarrow>
     (('a, 'e) TileData option \<times> ('a, 'e) TileLoader) option" where
  "findLoadedParent truthy c st = findLoadedParent_loop truthy (getParentTile c) st"

definition loader_clear :: "('a, 'e) TileLoader \<Rightarrow> ('a, 'e) TileLoader" where
  "loader_clear st =
     st\<lparr> tiles := [], loadQueue := [], loadingTiles := [],
         cache := cache_clear (cache st), loadGeneration := 0 \<rparr>"

text \<open>
  What can happen to a loader: the public operations that change it, a pending timer
  firing, and the completion of a load.
\<close>

datatype ('a, 'e) loader_event =
    UpdateViewport ViewportBounds int
  | ProcessQueue
  | GetTile string
  | FindLoadedParent TileCoord
  | Clear
  | TimerFires nat
  | LoadCompletes nat int "'e + 'a" int

fun step :: "('a \<Rightarrow> bool) \<Rightarrow> ('a, 'e) loader_event \<Rightarrow> ('a, 'e) TileLoader \<Rightarrow> ('a, 'e) TileLoader option" where
  "step truthy (UpdateViewport bounds zoom) st = Some (updateViewport bounds zoom st)"
| "step truthy ProcessQueue st = Some (processQueue st)"
| "step truthy (GetTile k) st = Some (snd (getTile truthy k st))"
| "step truthy (FindLoadedParent c) st = map_option snd (findLoadedParent truthy c st)"
| "step truthy Clear st = Some (loader_clear st)"
| "step truthy (TimerFires h) st = Some (fireTimer h st)"
| "step truthy (LoadCompletes r gen outcome now) st = completeLoad r gen outcome now st"

fun run_events :: "('a \<Rightarrow> bool) \<Rightarrow> ('a, 'e) loader_event list \<Rightarrow> ('a, 'e) TileLoader \<Rightarrow> ('a, 'e) TileLoader option" where
  "run_events truthy [] st = Some st"
| "run_events truthy (ev # evs) st =
     (case step truthy ev st of None \<Rightarrow> None | Some st' \<Rightarrow> run_events truthy evs st')"

text \<open>
  Concrete runs. The viewport is the single point at longitude 0, latitude 0; at zoom 0
  its only visible tile is \<open>0/0/0\<close>. Payloads are objects, which are truthy.
\<close>

definition zero_bounds :: ViewportBounds where
  "zero_bounds = \<lparr> west = 0, east = 0, north = 0, south = 0 \<rparr>"

definition truthy_object :: "unit \<Rightarrow> bool" where
  "truthy_object v = True"

definition origin_tile :: PrioritizedTile where
  "origin_tile = \<lparr> p_coord = \<lparr> tile_x = 0, tile_y = 0, tile_z = 0 \<rparr>, p_key = ''0/0/0'', distance = 0 \<rparr>"

definition zoomed_tile :: PrioritizedTile where
  "zoomed_tile = \<lparr> p_coord = \<lparr> tile_x = 1, tile_y = 1, tile_z = 1 \<rparr>, p_key = ''1/1/1'', distance = 0 \<rparr>"

text \<open>
  A tile starts loading at zoom 0; the zoom changes to 1 and back to 0 before the load
  completes; the two zoom timers fire in the order they were armed, so the view at zoom 1
  and then the view at zoom 0 are processed. At zoom 1 the only visible tile is \<open>1/1/1\<close>.
\<close>

definition stale_events :: "(unit, unit) loader_event list" where
  "stale_events =
     [UpdateViewport zero_bounds 0, TimerFires 1, ProcessQueue,
      UpdateViewport zero_bounds 1, UpdateViewport zero_bounds 0, TimerFires 2, TimerFires 3]"


definition fresh_loader :: "(unit, unit) TileLoader" where
  "fresh_loader = new_loader DEFAULT_CONFIG"

definition stale_final :: "(unit, unit) TileLoader" where
  "stale_final =
     \<lparr> config = DEFAULT_CONFIG,
       cache = new_cache 50,
       heap = [\<lparr> coord = \<lparr> tile_x = 0, tile_y = 0, tile_z = 0 \<rparr>, tile_key = ''0/0/0'',
                  state = PENDING, data = None, error = None, loadTime = None,
                  generation = 1 \<rparr>,
               \<lparr> coord = \<lparr> tile_x = 1, tile_y = 1, tile_z = 1 \<rparr>, tile_key = ''1/1/1'',
                  state = PENDING, data = None, error = None, loadTime = None,
                  generation = 3 \<rparr>],
       tiles = [(''0/0/0'', 0), (''1/1/1'', 1)], loadQueue = [''1/1/1'', ''0/0/0''],
       loadingTiles = [], loadGeneration = 3, lastZoom = 0, panDebounceTimer = None,
       zoomDebounceTimer = Some 3, isZooming = False, timers = [], nextTimer = 4 \<rparr>"


text \<open>
  A load of \<open>0/0/0\<close> is started at generation 0 (after a \<open>clear\<close>) and still in flight
  when a second \<open>clear\<close> and two zoom changes bring the loader to generation 2, where
  \<open>0/0/0\<close> gets a new record and a new load. \<open>stale_inflight\<close> is the state the first
  load finds when it completes; its record is the object at index 0.
\<close>

definition stale_inflight_events :: "(unit, unit) loader_event list" where
  "stale_inflight_events =
     [UpdateViewport zero_bounds 0, Clear, TimerFires 1, ProcessQueue, Clear,
      UpdateViewport zero_bounds 1, UpdateViewport zero_bounds 0, TimerFires 2, TimerFires 3,
      ProcessQueue]"

definition stale_inflight :: "(unit, unit) TileLoader" where
  "stale_inflight =
     \<lparr> config = DEFAULT_CONFIG,
       cache = new_cache 50,
       heap = [\<lparr> coord = \<lparr> tile_x = 0, tile_y = 0, tile_z = 0 \<rparr>, tile_key = ''0/0/0'',
                  state = LOADING, data = None, error = None, loadTime = None,
                  generation = 0 \<rparr>,
               \<lparr> coord = \<lparr> tile_x = 1, tile_y = 1, tile_z = 1 \<rparr>, tile_key = ''1/1/1'',
                  state = LOADING, data = None, error = None, loadTime = None,
                  generation = 2 \<rparr>,
               \<lparr> coord = \<lparr> tile_x = 0, tile_y = 0, tile_z = 0 \<rparr>, tile_key = ''0/0/0'',
                  state = LOADING, data = None, error = None, loadTime = None,
                  generation = 2 \<rparr>],
       tiles = [(''1/1/1'', 1), (''0/0/0'', 2)], loadQueue = [],
       loadingTiles = [''1/1/1'', ''0/0/0''], loadGeneration = 2, lastZoom = 0,
       panDebounceTimer = None, zoomDebounceTimer = Some 3, isZooming = False,
       timers = [], nextTimer = 4 \<rparr>"

text \<open>
  The state after one tile was loaded without interruption.
\<close>

definition loaded_state :: "(unit, unit) TileLoader" where
  "loaded_state =
     \<lparr> config = DEFAULT_CONFIG,
       cache = \<lparr> entries = [(''0/0/0'', \<lparr> entry_key = ''0/0/0'', entry_value = (),
                                          entry_size = 1048576, lastAccess = 1,
                                          entry_generation = 1 \<rparr>)],
                 accessCounter = 1, totalSize = 1048576, maxSize = 52428800,
                 stats = \<lparr> stat_entries = 1, stat_totalSize = 1048576,
                           stat_maxSize = 52428800, hits = 0, misses = 0, evictions = 0 \<rparr> \<rparr>,
       heap = [\<lparr> coord = \<lparr> tile_x = 0, tile_y = 0, tile_z = 0 \<rparr>, tile_key = ''0/0/0'',
                  state = LOADED, data = Some (), error = None, loadTime = Some 1000,
                  generation = 1 \<rparr>],
       tiles = [(''0/0/0'', 0)], loadQueue = [], loadingTiles = [],
       loadGeneration = 1, lastZoom = 0, panDebounceTimer = None,
       zoomDebounceTimer = Some 1, isZooming = False, timers = [], nextTimer = 2 \<rparr>"

definition loaded_events :: "(unit, unit) loader_event list" where
  "loaded_events =
     [UpdateViewport zero_bounds 0, TimerFires 1, ProcessQueue, LoadCompletes 0 1 (Inr ()) 1000]"

section \<open>Proofs: LRU tile cache\<close>


lemma length_delete_present:
  "distinct (map fst al) \<Longrightarrow> map_of al k = Some e \<Longrightarrow>
     Suc (length (AList.delete k al)) = length al"
proof (induction al)
  case Nil
  then show ?case by simp
next
  case (Cons p al)
  show ?case
  proof (cases "fst p = k")
    case True
    with Cons.prems have "k \<notin> fst ` set al" by auto
    with True show ?thesis by simp
  next
    case False
    with Cons show ?thesis by simp
  qed
qed






lemma sizes_sum_nonneg:
  "list_all (\<lambda>p. 0 \<le> entry_size (snd p)) al \<Longrightarrow> 0 \<le> sizes_sum al"
  by (induction al) (auto simp: sizes_sum_def)

text \<open>The scan of evictLRU\<close>

lemma scanLRU_mem:
  "scanLRU al acc m = Some k \<Longrightarrow> acc = Some k \<or> k \<in> fst ` set al"
  by (induction al acc m rule: scanLRU.induct) (auto split: if_splits)

lemma scanLRU_Some: "scanLRU al (Some k0) m \<noteq> None"
  by (induction al "Some k0" m arbitrary: k0 rule: scanLRU.induct) auto

lemma scanLRU_nonempty: "al \<noteq> [] \<Longrightarrow> \<exists>k. scanLRU al None None = Some k \<and> k \<in> fst ` set al"
proof (cases al)
  case Nil
  assume "al \<noteq> []" with Nil show ?thesis by simp
next
  case (Cons p es)
  obtain k0 e0 where p: "p = (k0, e0)" by (cases p)
  from scanLRU_Some [of es k0 "Some (lastAccess e0)"]
  obtain k where k: "scanLRU es (Some k0) (Some (lastAccess e0)) = Some k" by auto
  from scanLRU_mem [OF k] have "k = k0 \<or> k \<in> fst ` set es" by auto
  with k Cons p show ?thesis by auto
qed

lemma evictLRU_cases:
  assumes "distinct (map fst (entries c))" and "entries c \<noteq> []"
  shows "\<exists>k e. map_of (entries c) k = Some e \<and> scanLRU (entries c) None None = Some k \<and>
           (if k = [] then evictLRU c = c
            else evictLRU c =
                   c\<lparr> totalSize := totalSize c - entry_size e,
                      entries := AList.delete k (entries c),
                      stats := (stats c)\<lparr>evictions := evictions (stats c) + 1\<rparr> \<rparr>)"
proof -
  from scanLRU_nonempty [OF assms(2)]
  obtain k where k: "scanLRU (entries c) None None = Some k" "k \<in> fst ` set (entries c)"
    by blast
  from k(2) obtain e where e: "map_of (entries c) k = Some e"
    by (metis domD dom_map_of_conv_image_fst)
  show ?thesis
    using k(1) e by (auto simp: evictLRU_def)
qed



text \<open>Termination of the loop when no key is the empty string\<close>

lemma evictLRU_progress:
  assumes d: "distinct (map fst (entries c))" and ne: "entries c \<noteq> []"
    and keys: "[] \<notin> fst ` set (entries c)"
  shows "Suc (length (entries (evictLRU c))) = length (entries c) \<and>
         distinct (map fst (entries (evictLRU c))) \<and>
         [] \<notin> fst ` set (entries (evictLRU c)) \<and>
         evictions (stats (evictLRU c)) = evictions (stats c) + 1"
proof -
  from evictLRU_cases [OF d ne]
  obtain k e where ke: "map_of (entries c) k = Some e"
    and ev: "if k = [] then evictLRU c = c
            else evictLRU c =
                   c\<lparr> totalSize := totalSize c - entry_size e,
                      entries := AList.delete k (entries c),
                      stats := (stats c)\<lparr>evictions := evictions (stats c) + 1\<rparr> \<rparr>"
    by blast
  from ke have "k \<in> fst ` set (entries c)"
    by (metis domI dom_map_of_conv_image_fst)
  with keys have "k \<noteq> []" by blast
  with ev have eq: "evictLRU c =
                   c\<lparr> totalSize := totalSize c - entry_size e,
                      entries := AList.delete k (entries c),
                      stats := (stats c)\<lparr>evictions := evictions (stats c) + 1\<rparr> \<rparr>" by simp
  have "[] \<notin> fst ` set (AList.delete k (entries c))"
    using keys dom_delete_subset [of k "entries c"] by blast
  then show ?thesis
    unfolding eq using length_delete_present [OF d ke] d by (simp add: distinct_delete)
qed

lemma evict_loop_terminates:
  "distinct (map fst (entries c)) \<Longrightarrow> [] \<notin> fst ` set (entries c) \<Longrightarrow> \<exists>r. evict_loop c = Some r"
proof (induction "length (entries c)" arbitrary: c rule: less_induct)
  case less
  show ?case
  proof (cases "maxSize c < totalSize c \<and> 1 < length (entries c)")
    case False
    then show ?thesis by (subst evict_loop.simps) auto
  next
    case True
    then have ne: "entries c \<noteq> []" by auto
    from evictLRU_progress [OF less.prems(1) ne less.prems(2)]
    have p: "Suc (length (entries (evictLRU c))) = length (entries c)"
      "distinct (map fst (entries (evictLRU c)))" "[] \<notin> fst ` set (entries (evictLRU c))"
      by auto
    from p(1) have "length (entries (evictLRU c)) < length (entries c)" by simp
    from less.hyps [OF this p(2) p(3)] obtain r where "evict_loop (evictLRU c) = Some r" ..
    with True show ?thesis by (subst evict_loop.simps) auto
  qed
qed

text \<open>An empty-string key that is least recently used blocks the loop\<close>

lemma evict_loop_stuck:
  assumes "evict_loop c = Some r"
  shows "\<not> (maxSize c < totalSize c \<and> 1 < length (entries c) \<and> evictLRU c = c)"
proof (rule evict_loop.raw_induct
    [where P = "\<lambda>c r. \<not> (maxSize c < totalSize c \<and> 1 < length (entries c) \<and> evictLRU c = c)",
     OF _ assms])
  fix loop :: "'a LRUTileCache \<Rightarrow> 'a LRUTileCache option" and c r
  assume IH: "\<And>x y. loop x = Some y \<Longrightarrow>
                \<not> (maxSize x < totalSize x \<and> 1 < length (entries x) \<and> evictLRU x = x)"
    and eq: "(if maxSize c < totalSize c \<and> 1 < length (entries c)
              then loop (evictLRU c) else Some c) = Some r"
  show "\<not> (maxSize c < totalSize c \<and> 1 < length (entries c) \<and> evictLRU c = c)"
  proof
    assume st: "maxSize c < totalSize c \<and> 1 < length (entries c) \<and> evictLRU c = c"
    with eq have "loop c = Some r" by simp
    from IH [OF this] st show False by simp
  qed
qed












text \<open>
  Claim C10 (termination of \<open>set\<close> under non-empty keys). If no stored key and not the
  key being set is the empty string, \<open>set\<close> returns. Every pass of its loop then evicts
  exactly one entry: on any cache with at least one entry whose keys are non-empty,
  \<open>evictLRU\<close> removes one entry, counts one eviction, and leaves the keys distinct and
  non-empty for the next pass. The keys of a \<open>Map\<close> are distinct.
\<close>

theorem cache_set_terminates:
  assumes "distinct (cache_keys c)" and "[] \<notin> set (cache_keys c)" and "k \<noteq> []"
  shows "(\<exists>c'. cache_set k v sz gen c = Some c') \<and>
         (\<forall>c1 :: 'a LRUTileCache.
            distinct (cache_keys c1) \<and> [] \<notin> set (cache_keys c1) \<and> entries c1 \<noteq> [] \<longrightarrow>
              Suc (length (entries (evictLRU c1))) = length (entries c1) \<and>
              evictions (stats (evictLRU c1)) = evictions (stats c1) + 1 \<and>
              distinct (cache_keys (evictLRU c1)) \<and> [] \<notin> set (cache_keys (evictLRU c1)))"
proof
  define entry where "entry = \<lparr> entry_key = k, entry_value = v, entry_size = sz,
                    lastAccess = accessCounter c + 1, entry_generation = gen \<rparr>"
  define c3 where "c3 = c\<lparr> accessCounter := accessCounter c + 1,
        entries := AList.update k entry (entries c),
        totalSize := (case map_of (entries c) k of Some old \<Rightarrow> totalSize c - entry_size old
                      | None \<Rightarrow> totalSize c) + sz \<rparr>"
  have set_eq: "cache_set k v sz gen c = map_option updateStats (evict_loop c3)"
    by (cases "map_of (entries c) k") (simp_all add: cache_set_def c3_def entry_def Let_def)
  from assms have "distinct (map fst (entries c3))" "[] \<notin> fst ` set (entries c3)"
    by (auto simp: c3_def cache_keys_def distinct_update dom_update)
  from evict_loop_terminates [OF this] obtain r where "evict_loop c3 = Some r" ..
  with set_eq show "\<exists>c'. cache_set k v sz gen c = Some c'" by simp
next
  show "\<forall>c1 :: 'a LRUTileCache.
            distinct (cache_keys c1) \<and> [] \<notin> set (cache_keys c1) \<and> entries c1 \<noteq> [] \<longrightarrow>
              Suc (length (entries (evictLRU c1))) = length (entries c1) \<and>
              evictions (stats (evictLRU c1)) = evictions (stats c1) + 1 \<and>
              distinct (cache_keys (evictLRU c1)) \<and> [] \<notin> set (cache_keys (evictLRU c1))"
    using evictLRU_progress by (auto simp: cache_keys_def)
qed

theorem cache_set_terminates_witness:
  "distinct (cache_keys term_cache) \<and> [] \<notin> set (cache_keys term_cache) \<and> ''c'' \<noteq> [] \<and>
   (\<exists>c'. cache_set ''c'' () 500000 0 term_cache = Some c') \<and>
   entries term_cache \<noteq> [] \<and>
   Suc (length (entries (evictLRU term_cache))) = length (entries term_cache) \<and>
   evictions (stats (evictLRU term_cache)) = evictions (stats term_cache) + 1"
proof -
  have h1: "distinct (cache_keys term_cache)" by (simp add: term_cache_def cache_keys_def)
  have h2: "[] \<notin> set (cache_keys term_cache)" by (simp add: term_cache_def cache_keys_def)
  have h3: "''c'' \<noteq> []" by simp
  have h4: "entries term_cache \<noteq> []" by (simp add: term_cache_def)
  note t = cache_set_terminates [OF h1 h2 h3, of "()" 500000 0]
  from t have a: "\<exists>c'. cache_set ''c'' () 500000 0 term_cache = Some c'" by (rule conjunct1)
  from t [THEN conjunct2, THEN spec, of term_cache] h1 h2 h4
  have b: "Suc (length (entries (evictLRU term_cache))) = length (entries term_cache) \<and>
   evictions (stats (evictLRU term_cache)) = evictions (stats term_cache) + 1" by blast
  from h1 h2 h3 h4 a b show ?thesis by blast
qed

text \<open>
  The precondition is needed: an empty-string key can be stored, and once it is the least
  recently used entry of an over-budget cache, \<open>set\<close> does not return.
\<close>

lemma stuck_cache_reachable: "cache_set '''' () 1 0 (new_cache 0) = Some stuck_cache"
  by code_simp

lemma cache_set_empty_key_diverges: "cache_set ''a'' () 1 0 stuck_cache = None"
proof -
  have eq: "cache_set ''a'' () 1 0 stuck_cache = map_option updateStats (evict_loop stuck_loop_state)"
    by (simp add: cache_set_def stuck_cache_def stuck_loop_state_def Let_def numeral_2_eq_2)
  have "evict_loop stuck_loop_state = None"
  proof (rule ccontr)
    assume "evict_loop stuck_loop_state \<noteq> None"
    then obtain r where "evict_loop stuck_loop_state = Some r" by auto
    from evict_loop_stuck [OF this] show False
      by (simp add: stuck_loop_state_def evictLRU_def)
  qed
  with eq show ?thesis by simp
qed

text \<open>
  Claim C5 (scenario S1), as the code runs it. The capacity is 1048576 bytes, so the third
  insert of 409600 bytes already exceeds it and evicts \<open>0/0/0\<close>; \<open>get\<close> of \<open>0/0/0\<close>
  is then a miss; the fourth insert evicts \<open>0/0/1\<close>. Two evictions, the entries
  \<open>0/0/2\<close> and \<open>0/0/3\<close> remain, and \<open>totalSize\<close> is 819200.
\<close>

theorem s1_two_evictions:
  "map_option cache_keys (s1_run 3 409600) = Some [''0/0/1'', ''0/0/2''] \<and>
   map_option (evictions \<circ> stats) (s1_run 3 409600) = Some 1 \<and>
   map_option cache_keys (s1_run 5 409600) = Some [''0/0/2'', ''0/0/3''] \<and>
   map_option (evictions \<circ> stats) (s1_run 5 409600) = Some 2 \<and>
   map_option (misses \<circ> stats) (s1_run 5 409600) = Some 1 \<and>
   map_option totalSize (s1_run 5 409600) = Some 819200"
  by code_simp

text \<open>
  Claim C5 as stated does not hold: the outcome scenario S1 expects (one eviction, entries \<open>0/0/0\<close>, \<open>0/0/2\<close>, \<open>0/0/3\<close>,
  total 1200000) is not what the code produces, for entries of 409600 bytes and for entries
  of 400000 bytes.
\<close>

theorem s1_eviction_counterexample:
  "\<not> (map_option (evictions \<circ> stats) (s1_run 5 409600) = Some 1 \<and>
      map_option (set \<circ> cache_keys) (s1_run 5 409600) = Some {''0/0/0'', ''0/0/2'', ''0/0/3''} \<and>
      map_option totalSize (s1_run 5 409600) = Some 1200000) \<and>
   \<not> (map_option (evictions \<circ> stats) (s1_run 5 400000) = Some 1 \<and>
      map_option (set \<circ> cache_keys) (s1_run 5 400000) = Some {''0/0/0'', ''0/0/2'', ''0/0/3''} \<and>
      map_option totalSize (s1_run 5 400000) = Some 1200000)"
proof -
  have a: "map_option (evictions \<circ> stats) (s1_run 5 409600) \<noteq> Some 1" by code_simp
  have b: "map_option (evictions \<circ> stats) (s1_run 5 400000) \<noteq> Some 1" by code_simp
  from a b show ?thesis by blast
qed


section \<open>Proofs: tile keys\<close>

lemma split_nonempty: "split sep s \<noteq> []"
  by (induction s) (auto split: list.splits)

lemma split_no_sep: "p \<in> set (split sep s) \<Longrightarrow> sep \<notin> set p"
proof (induction s arbitrary: p)
  case Nil
  then show ?case by simp
next
  case (Cons c cs)
  show ?case
  proof (cases "c = sep")
    case True
    with Cons show ?thesis by auto
  next
    case False
    obtain q qs where q: "split sep cs = q # qs"
      using split_nonempty [of sep cs] by (cases "split sep cs") auto
    with False Cons.prems have "p = c # q \<or> p \<in> set qs" by auto
    then show ?thesis
    proof
      assume "p = c # q"
      moreover from Cons.IH [of q] q have "sep \<notin> set q" by simp
      ultimately show ?thesis using False by auto
    next
      assume "p \<in> set qs"
      with Cons.IH [of p] q show ?thesis by simp
    qed
  qed
qed

lemma split_single: "sep \<notin> set a \<Longrightarrow> split sep a = [a]"
  by (induction a) auto

lemma split_append: "sep \<notin> set a \<Longrightarrow> split sep (a @ sep # rest) = a # split sep rest"
proof (induction a)
  case Nil
  then show ?case by simp
next
  case (Cons c a)
  then show ?case by auto
qed

lemma split_Cons_decompose:
  "split sep s = p # q # qs \<Longrightarrow> \<exists>rest. s = p @ sep # rest \<and> split sep rest = q # qs"
proof (induction s arbitrary: p)
  case Nil
  then show ?case by simp
next
  case (Cons c cs)
  show ?case
  proof (cases "c = sep")
    case True
    with Cons.prems show ?thesis by auto
  next
    case False
    obtain p' ps' where p': "split sep cs = p' # ps'"
      using split_nonempty [of sep cs] by (cases "split sep cs") auto
    with False Cons.prems have eq: "p = c # p'" "ps' = q # qs" by auto
    with p' Cons.IH [of p'] obtain rest where "cs = p' @ sep # rest" "split sep rest = q # qs"
      by auto
    with eq show ?thesis by auto
  qed
qed

lemma split_single_decompose: "split sep s = [p] \<Longrightarrow> s = p"
proof (induction s arbitrary: p)
  case Nil
  then show ?case by simp
next
  case (Cons c cs)
  show ?case
  proof (cases "c = sep")
    case True
    with Cons.prems split_nonempty [of sep cs] show ?thesis by auto
  next
    case False
    obtain p' ps' where p': "split sep cs = p' # ps'"
      using split_nonempty [of sep cs] by (cases "split sep cs") auto
    with False Cons.prems have "p = c # p'" "ps' = []" by auto
    with p' Cons.IH [of p'] show ?thesis by auto
  qed
qed

lemma split_three:
  "split sep s = [a, b, c] \<longleftrightarrow>
     sep \<notin> set a \<and> sep \<notin> set b \<and> sep \<notin> set c \<and> s = a @ sep # b @ sep # c"
proof
  assume sp: "split sep s = [a, b, c]"
  from split_Cons_decompose [OF sp] obtain r1 where r1: "s = a @ sep # r1" "split sep r1 = [b, c]"
    by auto
  from split_Cons_decompose [OF r1(2)] obtain r2 where r2: "r1 = b @ sep # r2" "split sep r2 = [c]"
    by auto
  from split_single_decompose [OF r2(2)] have "r2 = c" .
  moreover from split_no_sep [of _ sep s] sp have "sep \<notin> set a" "sep \<notin> set b" "sep \<notin> set c"
    by auto
  ultimately show "sep \<notin> set a \<and> sep \<notin> set b \<and> sep \<notin> set c \<and> s = a @ sep # b @ sep # c"
    using r1 r2 by simp
next
  assume "sep \<notin> set a \<and> sep \<notin> set b \<and> sep \<notin> set c \<and> s = a @ sep # b @ sep # c"
  then show "split sep s = [a, b, c]"
    by (simp add: split_append split_single)
qed



text \<open>Decimal rendering and parseInt\<close>

lemma digit_char_props:
  "d < 10 \<Longrightarrow> is_digit (digit_char d) \<and> digit_val (digit_char d) = int d \<and>
     \<not> is_space (digit_char d) \<and> digit_char d \<noteq> CHR ''-'' \<and> digit_char d \<noteq> CHR ''+'' \<and>
     digit_char d \<noteq> CHR ''/''"
proof -
  assume d: "d < 10"
  then have oc: "(of_char (digit_char d) :: nat) = 48 + d"
    by (simp add: digit_char_def)
  have "digit_char d \<noteq> c" if "(of_char c :: nat) < 48" for c
    using that oc by auto
  then have "digit_char d \<noteq> CHR ''-''" "digit_char d \<noteq> CHR ''+''" "digit_char d \<noteq> CHR ''/''"
    by auto
  with d oc show ?thesis
    by (auto simp: is_digit_def digit_val_def is_space_def)
qed

lemma show_nat_digits: "show_nat n \<noteq> [] \<and> list_all is_digit (show_nat n)"
proof (induction n rule: show_nat.induct)
  case (1 n)
  show ?case
  proof (cases "n < 10")
    case True
    then show ?thesis by (subst (1 2) show_nat.simps) (simp add: digit_char_props)
  next
    case False
    with 1 show ?thesis by (subst (1 2) show_nat.simps) (simp add: digit_char_props)
  qed
qed



lemma is_digit_props:
  "is_digit c \<Longrightarrow> \<not> is_space c \<and> c \<noteq> CHR ''-'' \<and> c \<noteq> CHR ''+'' \<and> c \<noteq> CHR ''/''"
  by (auto simp: is_digit_def is_space_def)



lemma show_nat_no_slash: "CHR ''/'' \<notin> set (show_nat n)"
  using show_nat_digits [of n] is_digit_props by (auto simp: list_all_iff)




text \<open>The key of three non-negative integers is canonical.\<close>

lemma canonical_tileKey:
  assumes "0 \<le> x" "0 \<le> y" "0 \<le> z"
  shows "canonical_key (tileKey x y z)"
proof -
  from assms have k: "tileKey x y z =
      show_nat (nat z) @ CHR ''/'' # show_nat (nat x) @ CHR ''/'' # show_nat (nat y)"
    by (simp add: tileKey_def js_show_def)
  have "split CHR ''/'' (tileKey x y z) = [show_nat (nat z), show_nat (nat x), show_nat (nat y)]"
    unfolding k by (simp add: split_three show_nat_no_slash)
  then show ?thesis
    by (simp add: canonical_key_def decimal_def show_nat_digits)
qed


section \<open>Proofs: projection and tile regions\<close>

lemma projection_lat:
  assumes "- 90 < lat" "lat < (90::real)"
  shows "(arctan (exp (((ln (tan (((90 + lat) * pi) / 360)) / (pi / 180)) * ORIGIN_SHIFT) / 180 / ORIGIN_SHIFT * pi)) * 360) / pi - 90 = lat"
proof -
  define t where "t = ((90 + lat) * pi) / 360"
  have S: "ORIGIN_SHIFT \<noteq> 0" by (simp add: ORIGIN_SHIFT_def EARTH_RADIUS_def)
  have t0: "0 < t" using assms by (simp add: t_def)
  have t1: "t < pi / 2" using assms by (simp add: t_def field_simps)
  have tp: "0 < tan t" using t0 t1 by (rule tan_gt_zero)
  have "((ln (tan t) / (pi / 180)) * ORIGIN_SHIFT) / 180 / ORIGIN_SHIFT * pi = ln (tan t)"
    using S by (simp add: field_simps)
  then have "arctan (exp (((ln (tan t) / (pi / 180)) * ORIGIN_SHIFT) / 180 / ORIGIN_SHIFT * pi))
      = arctan (tan t)" using tp by simp
  also have "\<dots> = t" using t0 t1 by (intro arctan_tan) auto
  finally have "(arctan (exp (((ln (tan t) / (pi / 180)) * ORIGIN_SHIFT) / 180 / ORIGIN_SHIFT * pi)) * 360) / pi - 90
      = t * 360 / pi - 90" by simp
  also have "\<dots> = lat" by (simp add: t_def field_simps)
  finally show ?thesis unfolding t_def .
qed

text \<open>
  Claim C9 (projection round trip). Over the real numbers, for a longitude in
  \<open>[-180, 180]\<close> and a latitude in \<open>[-85.0511, 85.0511]\<close>, converting to Web Mercator and
  back gives exactly the input.
\<close>

theorem projection_round_trip:
  assumes "- 180 \<le> lng" and "lng \<le> 180" and "- 85.0511 \<le> lat" and "lat \<le> 85.0511"
  shows "webMercatorToWGS84 (fst (wgs84ToWebMercator lng lat)) (snd (wgs84ToWebMercator lng lat))
           = (lng, lat)"
proof -
  have S: "ORIGIN_SHIFT \<noteq> 0" by (simp add: ORIGIN_SHIFT_def EARTH_RADIUS_def)
  from assms have "- 90 < lat" "lat < 90" by simp_all
  from projection_lat [OF this] S show ?thesis
    by (simp add: webMercatorToWGS84_def wgs84ToWebMercator_def Let_def)
qed

theorem projection_round_trip_witness:
  "- 180 \<le> (- 73.9857::real) \<and> (- 73.9857::real) \<le> 180 \<and>
   - 85.0511 \<le> (40.7484::real) \<and> (40.7484::real) \<le> 85.0511 \<and>
   webMercatorToWGS84 (fst (wgs84ToWebMercator (- 73.9857) 40.7484))
                      (snd (wgs84ToWebMercator (- 73.9857) 40.7484))
     = (- 73.9857, 40.7484)"
proof -
  have h: "- 180 \<le> (- 73.9857::real)" "(- 73.9857::real) \<le> 180" "- 85.0511 \<le> (40.7484::real)"
    "(40.7484::real) \<le> 85.0511" by simp_all
  from projection_round_trip [OF h] h show ?thesis by blast
qed


lemma getParentTiles_contains:
  "parent \<in> set (getParentTiles child minZoom) \<Longrightarrow>
     contains_tile parent child \<and> tile_z parent < tile_z child"
proof (induction child minZoom rule: getParentTiles.induct)
  case (1 current minZoom)
  show ?case
  proof (cases "tile_z current > minZoom \<and> tile_z current \<noteq> 0")
    case False
    then have "getParentTiles current minZoom = []"
      by (subst getParentTiles.simps) (auto simp: getParentTile_def)
    with "1.prems" show ?thesis by simp
  next
    case True
    define par :: TileCoord where
      "par = \<lparr> tile_x = tile_x current div 2, tile_y = tile_y current div 2,
                tile_z = tile_z current - 1 \<rparr>"
    from True have gp: "getParentTile current = Some par"
      by (simp add: getParentTile_def par_def)
    with True have "getParentTiles current minZoom = par # getParentTiles par minZoom"
      by (subst getParentTiles.simps) simp
    with "1.prems" have mem: "parent = par \<or> parent \<in> set (getParentTiles par minZoom)"
      by simp
    show ?thesis
    proof (cases "parent = par")
      case True
      then show ?thesis by (simp add: contains_tile_def par_def)
    next
      case False
      with mem have "parent \<in> set (getParentTiles par minZoom)" by simp
      from "1.IH" [OF _ gp this] True
      have c: "contains_tile parent par" and z: "tile_z parent < tile_z par" by auto
      define k where "k = nat (tile_z par - tile_z parent)"
      from z have n: "nat (tile_z current - tile_z parent) = Suc k"
        by (simp add: k_def par_def)
      have "a div 2 div 2 ^ k = a div 2 ^ Suc k" for a :: int
        by (simp add: zdiv_zmult2_eq)
      with c z n show ?thesis
        by (simp add: contains_tile_def par_def k_def)
    qed
  qed
qed

lemma offset_in_unit:
  "(0 \<le> real_of_int c / 2 ^ n - real_of_int p \<and> real_of_int c / 2 ^ n - real_of_int p < 1)
     \<longleftrightarrow> p = c div 2 ^ n"
proof -
  have "\<lfloor>real_of_int c / real_of_int (2 ^ n)\<rfloor> = c div 2 ^ n"
    by (rule floor_divide_of_int_eq)
  then have fl: "\<lfloor>real_of_int c / 2 ^ n\<rfloor> = c div 2 ^ n" by simp
  have "(0 \<le> real_of_int c / 2 ^ n - real_of_int p \<and> real_of_int c / 2 ^ n - real_of_int p < 1)
     \<longleftrightarrow> \<lfloor>real_of_int c / 2 ^ n\<rfloor> = p"
    by (auto simp: floor_eq_iff)
  with fl show ?thesis by auto
qed

text \<open>
  Claim C8 (region of a child in a parent), as the code has it. The result is none exactly
  when the parent's zoom is larger than the child's; nothing else is checked. Otherwise the
  region has \<open>width = height = 2 ^ (parent.z - child.z)\<close> and the offsets
  \<open>child.x / 2 ^ d - parent.x\<close> and \<open>child.y / 2 ^ d - parent.y\<close>, with
  \<open>d = child.z - parent.z\<close>. The offsets lie in the unit square \<open>[0, 1)\<close> exactly when the
  parent is the tile of its zoom level that contains the child, which holds for every tile
  that \<open>getParentTiles\<close> lists for the child.
\<close>

theorem getChildRegionInParent_region:
  "(getChildRegionInParent child parent = None \<longleftrightarrow> tile_z child < tile_z parent) \<and>
   (tile_z parent \<le> tile_z child \<longrightarrow>
      (\<exists>r. getChildRegionInParent child parent = Some r \<and>
           width r = 2 powi (tile_z parent - tile_z child) \<and> height r = width r \<and>
           region_x r = real_of_int (tile_x child) / 2 ^ nat (tile_z child - tile_z parent)
                          - real_of_int (tile_x parent) \<and>
           region_y r = real_of_int (tile_y child) / 2 ^ nat (tile_z child - tile_z parent)
                          - real_of_int (tile_y parent) \<and>
           ((0 \<le> region_x r \<and> region_x r < 1 \<and> 0 \<le> region_y r \<and> region_y r < 1)
              \<longleftrightarrow> contains_tile parent child))) \<and>
   (parent \<in> set (getParentTiles child 0) \<longrightarrow> contains_tile parent child)"
proof (intro conjI impI)
  show "getChildRegionInParent child parent = None \<longleftrightarrow> tile_z child < tile_z parent"
    by (simp add: getChildRegionInParent_def Let_def)
next
  assume le: "tile_z parent \<le> tile_z child"
  define n where "n = nat (tile_z child - tile_z parent)"
  define r where "r = \<lparr> region_x = real_of_int (tile_x child) / 2 ^ n - real_of_int (tile_x parent),
                         region_y = real_of_int (tile_y child) / 2 ^ n - real_of_int (tile_y parent),
                         width = 1 / 2 ^ n, height = 1 / 2 ^ n \<rparr>"
  from le have p1: "(2::real) powi (tile_z child - tile_z parent) = 2 ^ n"
    by (simp add: power_int_def n_def)
  from le have p2: "(2::real) powi (tile_z parent - tile_z child) = 1 / 2 ^ n"
    by (cases "tile_z parent = tile_z child")
       (simp_all add: power_int_def n_def field_simps)
  from le p1 have res: "getChildRegionInParent child parent = Some r"
    by (simp add: getChildRegionInParent_def Let_def r_def)
  have unit: "(0 \<le> region_x r \<and> region_x r < 1 \<and> 0 \<le> region_y r \<and> region_y r < 1)
              \<longleftrightarrow> contains_tile parent child"
    using le offset_in_unit [of "tile_x child" n "tile_x parent"]
      offset_in_unit [of "tile_y child" n "tile_y parent"]
    by (auto simp: r_def contains_tile_def n_def)
  show "\<exists>r. getChildRegionInParent child parent = Some r \<and>
           width r = 2 powi (tile_z parent - tile_z child) \<and> height r = width r \<and>
           region_x r = real_of_int (tile_x child) / 2 ^ nat (tile_z child - tile_z parent)
                          - real_of_int (tile_x parent) \<and>
           region_y r = real_of_int (tile_y child) / 2 ^ nat (tile_z child - tile_z parent)
                          - real_of_int (tile_y parent) \<and>
           ((0 \<le> region_x r \<and> region_x r < 1 \<and> 0 \<le> region_y r \<and> region_y r < 1)
              \<longleftrightarrow> contains_tile parent child)"
  proof (intro exI [of _ r] conjI)
    show "getChildRegionInParent child parent = Some r" by (rule res)
    show "width r = 2 powi (tile_z parent - tile_z child)" by (simp add: r_def p2)
    show "height r = width r" by (simp add: r_def)
    show "region_x r = real_of_int (tile_x child) / 2 ^ nat (tile_z child - tile_z parent)
                          - real_of_int (tile_x parent)" by (simp add: r_def n_def)
    show "region_y r = real_of_int (tile_y child) / 2 ^ nat (tile_z child - tile_z parent)
                          - real_of_int (tile_y parent)" by (simp add: r_def n_def)
    show "(0 \<le> region_x r \<and> region_x r < 1 \<and> 0 \<le> region_y r \<and> region_y r < 1)
              \<longleftrightarrow> contains_tile parent child" by (rule unit)
  qed
next
  assume "parent \<in> set (getParentTiles child 0)"
  from getParentTiles_contains [OF this] show "contains_tile parent child" by simp
qed

theorem getChildRegionInParent_region_witness:
  "tile_z region_parent \<le> tile_z region_child \<and>
   region_parent \<in> set (getParentTiles region_child 0) \<and>
   getChildRegionInParent region_child region_parent \<noteq> None \<and>
   contains_tile region_parent region_child \<and>
   (\<exists>r. getChildRegionInParent region_child region_parent = Some r \<and>
        width r = 2 powi (tile_z region_parent - tile_z region_child) \<and>
        0 \<le> region_x r \<and> region_x r < 1 \<and> 0 \<le> region_y r \<and> region_y r < 1)"
proof -
  have h1: "tile_z region_parent \<le> tile_z region_child"
    by (simp add: region_child_def region_parent_def)
  have h2: "region_parent \<in> set (getParentTiles region_child 0)"
    by (simp add: region_child_def region_parent_def getParentTiles.simps getParentTile_def)
  note t = getChildRegionInParent_region [of region_child region_parent]
  from t h1 h2 show ?thesis by auto
qed

text \<open>
  Claim C8 as stated does not hold, a parent that is not an ancestor still gets a region: tile \<open>(0, 0)\<close> at zoom 1 is not
  among the parents of tile \<open>(3, 3)\<close> at zoom 2, and the region returned has offsets
  \<open>3/2\<close>, outside the unit square.
\<close>

theorem getChildRegionInParent_counterexample:
  "\<lparr> tile_x = 0, tile_y = 0, tile_z = 1 \<rparr> \<notin> set (getParentTiles \<lparr> tile_x = 3, tile_y = 3, tile_z = 2 \<rparr> 0) \<and>
   getChildRegionInParent \<lparr> tile_x = 3, tile_y = 3, tile_z = 2 \<rparr> \<lparr> tile_x = 0, tile_y = 0, tile_z = 1 \<rparr>
     = Some \<lparr> region_x = 3 / 2, region_y = 3 / 2, width = 1 / 2, height = 1 / 2 \<rparr>"
  by (simp add: getParentTiles.simps getParentTile_def getChildRegionInParent_def Let_def power_int_def)


section \<open>Proofs: tile loader\<close>

lemma tileKey_origin: "tileKey 0 0 0 = ''0/0/0''"
  by code_simp

lemma lngLatToTile_origin: "lngLatToTile 0 0 0 = \<lparr> tile_x = 0, tile_y = 0, tile_z = 0 \<rparr>"
  by (simp add: lngLatToTile_def Let_def)

lemma prioritized_zero_bounds:
  "prioritizeTiles (getVisibleTiles zero_bounds 0) (getViewportCenterTile zero_bounds 0) = [origin_tile]"
  by (simp add: prioritizeTiles_def getVisibleTiles_def getViewportCenterTile_def zero_bounds_def
      lngLatToTile_origin Let_def tileKey_origin origin_tile_def)

lemma processViewChange_zero_bounds:
  "processViewChange zero_bounds 0 st = enqueue_tile origin_tile st"
  by (simp add: processViewChange_def Let_def prioritized_zero_bounds)

lemma tileKey_zoomed: "tileKey 1 1 1 = ''1/1/1''"
  by code_simp

lemma lngLatToTile_zoomed: "lngLatToTile 0 0 1 = \<lparr> tile_x = 1, tile_y = 1, tile_z = 1 \<rparr>"
  by (simp add: lngLatToTile_def Let_def)

lemma prioritized_zero_bounds_zoomed:
  "prioritizeTiles (getVisibleTiles zero_bounds 1) (getViewportCenterTile zero_bounds 1) = [zoomed_tile]"
  by (simp add: prioritizeTiles_def getVisibleTiles_def getViewportCenterTile_def zero_bounds_def
      lngLatToTile_zoomed Let_def tileKey_zoomed zoomed_tile_def)

lemma processViewChange_zero_bounds_zoomed:
  "processViewChange zero_bounds 1 st = enqueue_tile zoomed_tile st"
  by (simp add: processViewChange_def Let_def prioritized_zero_bounds_zoomed)

lemmas loader_defs = processViewChange_zero_bounds_zoomed zoomed_tile_def updateViewport_def new_loader_def handleZoomChange_def Let_def
     invalidateOldGenerations_def new_cache_def DEFAULT_CONFIG_def setTimeout_def clearTimeout_def
     fireTimer_def processViewChange_zero_bounds enqueue_tile_def cache_has_def origin_tile_def
     processQueue_def processQueue_loop.simps deref_def startTileLoad_def set_add_def
     loader_clear_def cache_clear_def updateStats_def completeLoad_def

text \<open>
  What \<open>processViewChange\<close> does for a key it appends to the queue: without a record it
  creates one, \<open>PENDING\<close> and of the current generation; a record that exists is left as
  it is.
\<close>

lemma enqueue_tile_new_record:
  assumes "\<not> cache_has (p_key p) (cache st)" and "p_key p \<notin> set (loadQueue st)"
    and "p_key p \<notin> set (loadingTiles st)" and "map_of (tiles st) (p_key p) = None"
  shows "loadQueue (enqueue_tile p st) = loadQueue st @ [p_key p] \<and>
         tiles_get (enqueue_tile p st) (p_key p) =
           Some \<lparr> coord = p_coord p, tile_key = p_key p, state = PENDING, data = None,
                  error = None, loadTime = None, generation = loadGeneration st \<rparr>"
  using assms by (simp add: enqueue_tile_def Let_def tiles_get_def deref_def update_conv')

lemma enqueue_tile_existing_record:
  assumes "\<not> cache_has (p_key p) (cache st)" and "p_key p \<notin> set (loadQueue st)"
    and "p_key p \<notin> set (loadingTiles st)" and "map_of (tiles st) (p_key p) \<noteq> None"
  shows "loadQueue (enqueue_tile p st) = loadQueue st @ [p_key p] \<and>
         heap (enqueue_tile p st) = heap st \<and> tiles (enqueue_tile p st) = tiles st"
  using assms by (auto simp: enqueue_tile_def Let_def)

text \<open>
  Claim C3 (records of enqueued keys). The claim fails on the code when a record for the
  key exists already. The last event of the run \<open>stale_events\<close> is \<open>processViewChange\<close>
  at zoom 0: it appends the key \<open>0/0/0\<close> to the queue (which held \<open>1/1/1\<close>), the loader
  is at generation 3, and the record of \<open>0/0/0\<close> still has generation 1. The next
  \<open>processQueue\<close> starts \<open>1/1/1\<close> and takes \<open>0/0/0\<close> off the queue as stale without
  starting it: the tile stays \<open>PENDING\<close> and is never loaded.
\<close>

theorem processViewChange_keeps_stale_record:
  "map_option loadQueue (run_events truthy_object (butlast stale_events) fresh_loader)
      = Some [''1/1/1''] \<and>
   run_events truthy_object stale_events fresh_loader = Some stale_final \<and>
   loadQueue stale_final = [''1/1/1'', ''0/0/0''] \<and>
   loadGeneration stale_final = 3 \<and>
   map_option generation (tiles_get stale_final ''0/0/0'') = Some 1 \<and>
   map_option state (tiles_get stale_final ''0/0/0'') = Some PENDING \<and>
   loadQueue (processQueue stale_final) = [] \<and>
   loadingTiles (processQueue stale_final) = [''1/1/1''] \<and>
   map_option state (tiles_get (processQueue stale_final) ''0/0/0'') = Some PENDING"
  by (simp add: stale_events_def stale_final_def fresh_loader_def loader_defs tiles_get_def
      eval_nat_numeral)


text \<open>
  Claim C6 as stated does not hold, \<open>clear\<close> lowers the generation: after the first
  viewport update it is 1, after \<open>clear\<close> it is 0.
\<close>

theorem generation_reset_counterexample:
  "step truthy_object (UpdateViewport zero_bounds 0) fresh_loader
      = Some (updateViewport zero_bounds 0 fresh_loader) \<and>
   loadGeneration (updateViewport zero_bounds 0 fresh_loader) = 1 \<and>
   step truthy_object Clear (updateViewport zero_bounds 0 fresh_loader)
      = Some (loader_clear (updateViewport zero_bounds 0 fresh_loader)) \<and>
   loadGeneration (loader_clear (updateViewport zero_bounds 0 fresh_loader)) = 0 \<and>
   loadGeneration (loader_clear (updateViewport zero_bounds 0 fresh_loader))
     < loadGeneration (updateViewport zero_bounds 0 fresh_loader)"
  by (simp add: fresh_loader_def loader_defs)

text \<open>
  Claim C2 (stale results are discarded). When a load that was started with generation
  \<open>gen\<close> completes, with a payload or with an error, and \<open>gen\<close> is smaller than the
  loader's generation, the completion removes the key of the tile from the in-flight set
  and changes nothing else: the store of records (so the record's state, data, error and
  load time), the tile map, the queue, the cache and the generation are as before.
\<close>

theorem stale_completion_discarded:
  assumes "gen < loadGeneration st" and "deref st r = Some tile"
  shows "completeLoad r gen outcome now st =
           Some (st\<lparr> loadingTiles := removeAll (tile_key tile) (loadingTiles st) \<rparr>) \<and>
         (\<forall>st'. completeLoad r gen outcome now st = Some st' \<longrightarrow>
            tile_key tile \<notin> set (loadingTiles st') \<and>
            heap st' = heap st \<and> deref st' r = Some tile \<and>
            cache st' = cache st \<and> tiles st' = tiles st \<and> loadQueue st' = loadQueue st \<and>
            loadGeneration st' = loadGeneration st)"
proof -
  from assms(2) have r: "r < length (heap st)" "heap st ! r = tile"
    by (auto simp: deref_def split: if_splits)
  from assms(1) have ne: "gen \<noteq> loadGeneration st" by simp
  have eq: "completeLoad r gen outcome now st =
           Some (st\<lparr> loadingTiles := removeAll (tile_key tile) (loadingTiles st) \<rparr>)"
    using assms(2) ne by (cases outcome) (simp_all add: completeLoad_def)
  have "deref (st\<lparr> loadingTiles := removeAll (tile_key tile) (loadingTiles st) \<rparr>) r = Some tile"
    using r by (simp add: deref_def)
  with eq show ?thesis by simp
qed

theorem stale_completion_discarded_witness:
  "(0::int) < loadGeneration stale_inflight \<and>
   deref stale_inflight 0 = Some (heap stale_inflight ! 0) \<and>
   completeLoad 0 0 (Inr ()) 1000 stale_inflight
     = Some (stale_inflight\<lparr> loadingTiles := [''1/1/1''] \<rparr>) \<and>
   completeLoad 0 0 (Inl ()) 1000 stale_inflight
     = Some (stale_inflight\<lparr> loadingTiles := [''1/1/1''] \<rparr>)"
proof -
  have h1: "(0::int) < loadGeneration stale_inflight" by (simp add: stale_inflight_def)
  have h2: "deref stale_inflight 0 = Some (heap stale_inflight ! 0)"
    by (simp add: stale_inflight_def deref_def)
  have k: "removeAll (tile_key (heap stale_inflight ! 0)) (loadingTiles stale_inflight) = [''1/1/1'']"
    by (simp add: stale_inflight_def)
  note t = stale_completion_discarded [OF h1 h2, THEN conjunct1]
  have a: "completeLoad 0 0 (Inr ()) 1000 stale_inflight
             = Some (stale_inflight\<lparr> loadingTiles := [''1/1/1''] \<rparr>)"
    using t [of "Inr ()" 1000] by (simp only: k)
  have b: "completeLoad 0 0 (Inl ()) 1000 stale_inflight
             = Some (stale_inflight\<lparr> loadingTiles := [''1/1/1''] \<rparr>)"
    using t [of "Inl ()" 1000] by (simp only: k)
  from h1 h2 a b show ?thesis by blast
qed

text \<open>The state of this example is reached by a run of the loader.\<close>

lemma stale_inflight_reachable:
  "run_events truthy_object stale_inflight_events fresh_loader = Some stale_inflight"
  by (simp add: stale_inflight_events_def stale_inflight_def fresh_loader_def loader_defs
      eval_nat_numeral)

lemma cancel_loading_gen: "loadGeneration (cancel_loading ks st) = loadGeneration st"
  by (induction ks arbitrary: st) (auto split: option.splits)

lemma handleZoomChange_gen: "loadGeneration (handleZoomChange z st) = loadGeneration st + 1"
  by (simp add: handleZoomChange_def Let_def cancel_loading_gen)

lemma updateViewport_gen:
  "loadGeneration (updateViewport b z st) =
     (if z \<noteq> lastZoom st then loadGeneration st + 1 else loadGeneration st)"
  by (auto simp: updateViewport_def Let_def setTimeout_def clearTimeout_def handleZoomChange_gen
      split: option.splits)

lemma enqueue_tile_gen: "loadGeneration (enqueue_tile p st) = loadGeneration st"
  by (simp add: enqueue_tile_def Let_def)

lemma fold_enqueue_tile_gen: "loadGeneration (fold enqueue_tile ps st) = loadGeneration st"
  by (induction ps arbitrary: st) (simp_all add: enqueue_tile_gen)

lemma processViewChange_gen: "loadGeneration (processViewChange b z st) = loadGeneration st"
  by (simp add: processViewChange_def Let_def fold_enqueue_tile_gen)

lemma fireTimer_gen: "loadGeneration (fireTimer h st) = loadGeneration st"
  by (simp add: fireTimer_def processViewChange_gen split: option.splits timer_callback.splits)

lemma startTileLoad_gen: "loadGeneration (startTileLoad r st) = loadGeneration st"
  by (simp add: startTileLoad_def split: option.splits)

lemma processQueue_loop_gen: "loadGeneration (processQueue_loop n st) = loadGeneration st"
proof (induction n st rule: processQueue_loop.induct)
  case (1 n st)
  show ?case
    by (subst processQueue_loop.simps)
       (auto simp: Let_def "1.IH" startTileLoad_gen split: option.splits)
qed

lemma processQueue_gen: "loadGeneration (processQueue st) = loadGeneration st"
  by (simp add: processQueue_def processQueue_loop_gen)

lemma getTile_gen: "loadGeneration (snd (getTile truthy k st)) = loadGeneration st"
  by (auto simp: getTile_def Let_def split: prod.splits option.splits)

lemma findLoadedParent_loop_gen:
  assumes "findLoadedParent_loop truthy parent st = Some res"
  shows "loadGeneration (snd res) = loadGeneration st"
proof (rule findLoadedParent_loop.raw_induct
    [where P = "\<lambda>truthy parent st res. loadGeneration (snd res) = loadGeneration st", OF _ assms])
  fix loop :: "('a \<Rightarrow> bool) \<Rightarrow> TileCoord option \<Rightarrow> ('a, 'b) TileLoader \<Rightarrow>
       (('a, 'b) TileData option \<times> ('a, 'b) TileLoader) option"
    and truthy parent st res
  assume IH: "\<And>truthy parent st res. loop truthy parent st = Some res \<Longrightarrow>
                loadGeneration (snd res) = loadGeneration st"
    and eq: "(case parent of
        None \<Rightarrow> Some (None, st)
      | Some p \<Rightarrow>
          (case getTile truthy (tileKey (tile_x p) (tile_y p) (tile_z p)) st of
             (tile, st1) \<Rightarrow>
               if (case tile of
                     Some t \<Rightarrow> state t = LOADED \<and>
                               (case data t of Some d \<Rightarrow> truthy d | None \<Rightarrow> False)
                   | None \<Rightarrow> False)
               then Some (tile, st1)
               else loop truthy (getParentTile p) st1)) = Some res"
  show "loadGeneration (snd res) = loadGeneration st"
  proof (cases parent)
    case None
    with eq show ?thesis by auto
  next
    case (Some p)
    obtain tile st1 where g: "getTile truthy (tileKey (tile_x p) (tile_y p) (tile_z p)) st = (tile, st1)"
      by (cases "getTile truthy (tileKey (tile_x p) (tile_y p) (tile_z p)) st")
    from getTile_gen [of truthy "tileKey (tile_x p) (tile_y p) (tile_z p)" st] g
    have g1: "loadGeneration st1 = loadGeneration st" by simp
    from eq Some g have "Some (tile, st1) = Some res \<or> loop truthy (getParentTile p) st1 = Some res"
      by (auto split: if_splits)
    then show ?thesis
    proof
      assume "Some (tile, st1) = Some res"
      with g1 show ?thesis by auto
    next
      assume "loop truthy (getParentTile p) st1 = Some res"
      from IH [OF this] g1 show ?thesis by simp
    qed
  qed
qed

lemma completeLoad_gen:
  "completeLoad r gen outcome now st = Some st' \<Longrightarrow> loadGeneration st' = loadGeneration st"
  by (cases outcome) (auto simp: completeLoad_def Let_def split: option.splits if_splits)

text \<open>
  Claim C6 (generation monotonicity), as the code has it. For every operation or event
  of the loader other than \<open>clear\<close> (viewport update, queue processing, tile lookup,
  parent lookup, a timer firing, a load completing) the generation after it is at least
  the generation before it. \<open>clear\<close> sets the generation to 0.
\<close>

theorem generation_monotone_except_clear:
  assumes "step truthy ev st = Some st'"
  shows "(ev \<noteq> Clear \<longrightarrow> loadGeneration st \<le> loadGeneration st') \<and>
         (ev = Clear \<longrightarrow> loadGeneration st' = 0)"
proof (cases ev)
  case (UpdateViewport b z)
  with assms updateViewport_gen [of b z st] show ?thesis by auto
next
  case ProcessQueue
  with assms processQueue_gen [of st] show ?thesis by auto
next
  case (GetTile k)
  with assms getTile_gen [of truthy k st] show ?thesis by auto
next
  case (FindLoadedParent c)
  with assms obtain res where "findLoadedParent_loop truthy (getParentTile c) st = Some res"
    and "st' = snd res" by (auto simp: findLoadedParent_def)
  with findLoadedParent_loop_gen [of truthy "getParentTile c" st res] FindLoadedParent
  show ?thesis by simp
next
  case Clear
  with assms show ?thesis by (auto simp: loader_clear_def)
next
  case (TimerFires h)
  with assms fireTimer_gen [of h st] show ?thesis by auto
next
  case (LoadCompletes r gen outcome now)
  with assms completeLoad_gen [of r gen outcome now st st'] show ?thesis by auto
qed

theorem generation_monotone_except_clear_witness:
  "step truthy_object (UpdateViewport zero_bounds 0) fresh_loader
      = Some (updateViewport zero_bounds 0 fresh_loader) \<and>
   loadGeneration fresh_loader \<le> loadGeneration (updateViewport zero_bounds 0 fresh_loader) \<and>
   step truthy_object Clear fresh_loader = Some (loader_clear fresh_loader) \<and>
   loadGeneration (loader_clear fresh_loader) = 0"
proof -
  have h1: "step truthy_object (UpdateViewport zero_bounds 0) fresh_loader
      = Some (updateViewport zero_bounds 0 fresh_loader)" by simp
  have h2: "step truthy_object Clear fresh_loader = Some (loader_clear fresh_loader)" by simp
  from generation_monotone_except_clear [OF h1] generation_monotone_except_clear [OF h2] h1 h2
  show ?thesis by simp
qed

lemma loaded_state_reachable:
  "run_events truthy_object loaded_events fresh_loader = Some loaded_state"
  by (simp add: loaded_events_def loaded_state_def fresh_loader_def loader_defs
      cache_set_def evict_loop.simps estimateTileSize_def eval_nat_numeral)



end
